theory Spec2Isabelle
  imports Main "HOL-Library.Word"
begin

section \<open>The local runner of opencompass (opencompass/runners/local.py)\<close>

text \<open>
  \<open>LocalRunner.launch\<close> runs a batch of tasks on one machine. In debug mode the tasks
  run one after the other. Otherwise a thread pool of \<open>max_num_workers\<close> threads maps the
  nested function \<open>submit\<close> over the tasks; \<open>submit\<close> claims GPU ids from the shared numpy
  array \<open>gpus\<close> under a lock, calls \<open>_launch\<close> and gives the ids back.

  Python integers are \<open>int\<close>, indices and GPU ids are \<open>nat\<close>, the entries of the
  \<open>np.uint\<close> array are \<open>64 word\<close>, strings are \<open>string\<close>, and an exception is the
  \<open>Inl\<close> of a sum.
\<close>

datatype error =
    AssertionError
  | ValueError
  | Raised string  \<comment> \<open>an exception raised inside a library call or by the task itself\<close>

subsection \<open>Discovery of the GPU ids (lines 77--83)\<close>

definition is_digit :: "char \<Rightarrow> bool" where
  "is_digit c = (c \<in> set ''0123456789'')"

text \<open>
  \<open>re.findall(r'(?<!-)\d+', s)\<close>: the scan goes from left to right. At a position whose
  character is a digit and whose preceding character is not a minus sign the longest run
  of digits is taken as a match and the scan goes on behind it; at any other position
  the scan moves one character on. The first argument is the character before the
  current position (\<open>None\<close> at the start of the string). Only the ten ASCII digits are
  modelled.
\<close>

function findall :: "char option \<Rightarrow> string \<Rightarrow> string list" where
  "findall prev [] = []"
| "findall prev (c # cs) =
     (if is_digit c \<and> prev \<noteq> Some CHR ''-''
      then (c # takeWhile is_digit cs)
             # findall (Some (last (c # takeWhile is_digit cs))) (dropWhile is_digit cs)
      else findall (Some c) cs)"
  by pat_completeness auto
termination
  by (relation "measure (\<lambda>(prev, s). length s)")
     (auto simp: length_dropWhile_le less_Suc_eq_le)

definition digit_val :: "char \<Rightarrow> nat" where
  "digit_val c = of_char c - 48"

text \<open>\<open>int(i)\<close> on a string of decimal digits.\<close>

definition py_int :: "string \<Rightarrow> nat" where
  "py_int ds = foldl (\<lambda>a c. 10 * a + digit_val c) 0 ds"

text \<open>
  \<open>os.environ\<close> is a map from names to values; \<open>device_count\<close> is what
  \<open>torch.cuda.device_count()\<close> returns.
\<close>

definition all_gpu_ids :: "(string \<rightharpoonup> string) \<Rightarrow> nat \<Rightarrow> nat list" where
  "all_gpu_ids environ device_count =
     (case environ ''CUDA_VISIBLE_DEVICES'' of
        Some v \<Rightarrow> map py_int (findall None v)
      | None \<Rightarrow> [0..<device_count])"

text \<open>
  The reading of the specification: the runs of digits of the value (each run as long as
  possible) that have no minus sign immediately before them.
\<close>

function spec_digit_runs :: "char option \<Rightarrow> string \<Rightarrow> string list" where
  "spec_digit_runs prev [] = []"
| "spec_digit_runs prev (c # cs) =
     (if is_digit c
      then (if prev \<noteq> Some CHR ''-'' then [c # takeWhile is_digit cs] else [])
             @ spec_digit_runs (Some (last (c # takeWhile is_digit cs))) (dropWhile is_digit cs)
      else spec_digit_runs (Some c) cs)"
  by pat_completeness auto
termination
  by (relation "measure (\<lambda>(prev, s). length s)")
     (auto simp: length_dropWhile_le less_Suc_eq_le)

definition spec_inventory :: "(string \<rightharpoonup> string) \<Rightarrow> nat \<Rightarrow> nat list" where
  "spec_inventory environ device_count =
     (case environ ''CUDA_VISIBLE_DEVICES'' of
        Some v \<Rightarrow> map py_int (spec_digit_runs None v)
      | None \<Rightarrow> [0..<device_count])"

subsection \<open>The slot table (lines 85--89)\<close>

type_synonym slot_table = "64 word list"

text \<open>
  \<open>gpus[ids] = v\<close> with an index list: every position named in \<open>ids\<close> gets \<open>v\<close>.
\<close>

definition assign_at :: "nat list \<Rightarrow> 64 word \<Rightarrow> slot_table \<Rightarrow> slot_table" where
  "assign_at ids v g = map (\<lambda>i. if i \<in> set ids then v else g ! i) [0..<length g]"

text \<open>
  \<open>np.zeros(max(all_gpu_ids) + 1, dtype=np.uint)\<close> followed by
  \<open>gpus[all_gpu_ids] = self.max_workers_per_gpu\<close>. The Python integer is stored
  modulo \<open>2 ^ 64\<close>.
\<close>

definition make_gpus :: "nat list \<Rightarrow> int \<Rightarrow> slot_table" where
  "make_gpus ids max_workers_per_gpu =
     (if length ids > 0
      then assign_at ids (word_of_int max_workers_per_gpu) (replicate (Max (set ids) + 1) 0)
      else [])"

text \<open>\<open>sum(gpus > 0)\<close>: the number of ids with a free slot.\<close>

definition count_free :: "slot_table \<Rightarrow> nat" where
  "count_free g = length (filter (\<lambda>x. 0 < x) g)"

text \<open>\<open>np.where(gpus)[0]\<close>: the indices of the non-zero entries, ascending.\<close>

definition where_nz :: "slot_table \<Rightarrow> nat list" where
  "where_nz g = filter (\<lambda>i. g ! i \<noteq> 0) [0..<length g]"

text \<open>The slice \<open>xs[:n]\<close>; a negative \<open>n\<close> counts from the end.\<close>

definition py_take :: "int \<Rightarrow> 'a list \<Rightarrow> 'a list" where
  "py_take n xs = (if 0 \<le> n then take (nat n) xs else take (length xs - nat (- n)) xs)"

text \<open>
  \<open>gpus[ids] -= 1\<close> and \<open>gpus[ids] += 1\<close>: each position named in \<open>ids\<close> changes
  once, in 64-bit unsigned arithmetic. The ids always come from \<open>where_nz\<close> of an array
  of the same length, so they are in range.
\<close>

definition dec_at :: "nat list \<Rightarrow> slot_table \<Rightarrow> slot_table" where
  "dec_at ids g = map (\<lambda>i. if i \<in> set ids then g ! i - 1 else g ! i) [0..<length g]"

definition inc_at :: "nat list \<Rightarrow> slot_table \<Rightarrow> slot_table" where
  "inc_at ids g = map (\<lambda>i. if i \<in> set ids then g ! i + 1 else g ! i) [0..<length g]"

text \<open>
  One pass through the body of the \<open>while True\<close> loop of \<open>submit\<close> (lines 100--107),
  which runs under the lock: \<open>Some\<close> is the \<open>break\<close> with the ids taken and the new
  array, \<open>None\<close> is \<open>time.sleep(1)\<close> and another pass.
\<close>

definition try_acquire :: "slot_table \<Rightarrow> int \<Rightarrow> (nat list \<times> slot_table) option" where
  "try_acquire g num_gpus =
     (if num_gpus \<le> int (count_free g)
      then let gpu_ids = py_take num_gpus (where_nz g) in Some (gpu_ids, dec_at gpu_ids g)
      else None)"

text \<open>\<open>assert len(gpus) >= num_gpus\<close> (line 97).\<close>

definition admit :: "slot_table \<Rightarrow> int \<Rightarrow> bool" where
  "admit g num_gpus = (num_gpus \<le> int (length g))"

subsection \<open>Tasks, the host and the runner\<close>

text \<open>
  A built task (\<open>TASKS.build\<close>) as far as the runner uses it: its name, its GPU demand,
  \<open>get_command(cfg_path, template)\<close>, \<open>get_log_path(file_extension)\<close>, and what
  \<open>task.run()\<close> does inside the runner's process (\<open>Some\<close>: it raises).
\<close>

record task =
  name :: string
  num_gpus :: int
  get_command :: "string \<Rightarrow> string \<Rightarrow> string"
  get_log_path :: "string \<Rightarrow> string"
  run :: "error option"

text \<open>
  The machine: the environment variables, the device count, the process id, what
  \<open>subprocess.run\<close> does with a command (it raises, or the child ends with a return
  code) and whether \<open>os.remove\<close> fails on a path. \<open>TASKS.build\<close>, \<open>cfg.dump\<close>,
  \<open>mkdir_or_exist\<close>, \<open>open\<close> and the progress bar are taken to succeed.
\<close>

record host =
  environ :: "string \<rightharpoonup> string"
  device_count :: nat
  pid :: nat
  sp_run :: "string \<Rightarrow> error + int"
  os_remove :: "string \<Rightarrow> error option"

record runner =
  max_num_workers :: int
  max_workers_per_gpu :: int
  debug :: bool

datatype log_entry = Debug string | Warning string

text \<open>
  What the runner leaves behind outside its own variables: the files it has created and
  not removed, the lines given to the logger, and the commands given to
  \<open>subprocess.run\<close>, in order.
\<close>

record world =
  files :: "string set"
  logs :: "log_entry list"
  runs :: "string list"

definition digit_char :: "nat \<Rightarrow> char" where
  "digit_char d = ''0123456789'' ! d"

text \<open>\<open>str(n)\<close> for a non-negative integer.\<close>

fun str_nat :: "nat \<Rightarrow> string" where
  "str_nat n = (if n < 10 then [digit_char n] else str_nat (n div 10) @ [digit_char (n mod 10)])"

declare str_nat.simps [simp del]

text \<open>\<open>sep.join(xs)\<close>.\<close>

fun join :: "string \<Rightarrow> string list \<Rightarrow> string" where
  "join sep [] = []"
| "join sep [x] = x"
| "join sep (x # y # ys) = x @ sep @ join sep (y # ys)"

definition startswith :: "string \<Rightarrow> string \<Rightarrow> bool" where
  "startswith s p = (take (length p) s = p)"

subsection \<open>\<open>_launch\<close> (lines 129--171)\<close>

definition param_file :: "host \<Rightarrow> nat \<Rightarrow> string" where
  "param_file h index = ''tmp/'' @ str_nat (pid h) @ ''_'' @ str_nat index @ ''_params.py''"

text \<open>Lines 147--148: the template handed to \<open>get_command\<close>.\<close>

definition tmpl :: "nat list \<Rightarrow> string" where
  "tmpl gpu_ids = ''CUDA_VISIBLE_DEVICES='' @ join '','' (map str_nat gpu_ids) @ '' {task_cmd}''"

definition warning_line :: "task \<Rightarrow> log_entry" where
  "warning_line t =
     Warning (''task '' @ name t @ '' fail, see'' @ [CHR 0x0A] @ get_log_path t ''out'')"

text \<open>
  The result is the returned pair or the exception that leaves \<open>_launch\<close>, together with
  the world afterwards. There is no \<open>try\<close> in the function: an exception of
  \<open>subprocess.run\<close> or of \<open>os.remove\<close> leaves it at once.
\<close>

definition launch_task ::
  "host \<Rightarrow> task \<Rightarrow> nat list \<Rightarrow> nat \<Rightarrow> world \<Rightarrow> (error + string \<times> int) \<times> world" where
  "launch_task h t gpu_ids index w =
     (let pf = param_file h index;
          w1 = w\<lparr>files := insert pf (files w)\<rparr>;
          cmd = get_command t pf (tmpl gpu_ids);
          w2 = w1\<lparr>logs := logs w1 @ [Debug (''Running command: '' @ cmd)]\<rparr>;
          out_path = get_log_path t ''out'';
          w3 = w2\<lparr>files := insert out_path (files w2), runs := runs w2 @ [cmd]\<rparr>
      in case sp_run h cmd of
           Inl err \<Rightarrow> (Inl err, w3)
         | Inr returncode \<Rightarrow>
             (let w4 = (if returncode \<noteq> 0 then w3\<lparr>logs := logs w3 @ [warning_line t]\<rparr> else w3)
              in case os_remove h pf of
                   Some err \<Rightarrow> (Inl err, w4)
                 | None \<Rightarrow> (Inr (name t, returncode), w4\<lparr>files := files w4 - {pf}\<rparr>)))"

subsection \<open>Debug mode (lines 58--74)\<close>

definition debug_param_file :: "host \<Rightarrow> string" where
  "debug_param_file h = ''tmp/'' @ str_nat (pid h) @ ''_params.py''"

text \<open>
  The \<open>for\<close> loop over the tasks, with \<open>status\<close> as accumulator. An exception of
  \<open>task.run()\<close>, of \<open>subprocess.run\<close> or of \<open>os.remove\<close> ends \<open>launch\<close>.
\<close>

fun launch_debug ::
  "host \<Rightarrow> task list \<Rightarrow> (string \<times> int) list \<Rightarrow> world \<Rightarrow> (error + (string \<times> int) list) \<times> world" where
  "launch_debug h [] status w = (Inr status, w)"
| "launch_debug h (t # ts) status w =
     (let pf = debug_param_file h;
          w1 = w\<lparr>files := insert pf (files w)\<rparr>;
          cmd = get_command t pf ''{task_cmd}'';
          ran = (if startswith cmd ''python''
                 then (case run t of Some err \<Rightarrow> Inl err | None \<Rightarrow> Inr w1)
                 else (case sp_run h cmd of
                         Inl err \<Rightarrow> Inl err
                       | Inr returncode \<Rightarrow> Inr (w1\<lparr>runs := runs w1 @ [cmd]\<rparr>)))
      in case ran of
           Inl err \<Rightarrow> (Inl err, w1)
         | Inr w2 \<Rightarrow>
             (case os_remove h pf of
                Some err \<Rightarrow> (Inl err, w2)
              | None \<Rightarrow> launch_debug h ts (status @ [(name t, 0)]) (w2\<lparr>files := files w2 - {pf}\<rparr>)))"

subsection \<open>The thread pool (lines 91--125)\<close>

text \<open>
  Where one call of \<open>submit\<close> stands: not yet taken by a worker thread; in the
  \<open>while True\<close> loop, with the number of sleeps so far; inside \<open>_launch\<close> with the ids it
  took; back from \<open>_launch\<close> with its result and before the \<open>with lock\<close> of line 118;
  returned; or left by an exception, with the ids it held at that moment.
\<close>

datatype jstate =
    Queued
  | Polling nat
  | Holding "nat list"
  | Launched "nat list" "string \<times> int"
  | Done "string \<times> int"
  | Faulted error "nat list"

record pool =
  gpus :: slot_table
  jobs :: "jstate list"
  world :: world

fun active :: "jstate \<Rightarrow> bool" where
  "active (Polling n) = True"
| "active (Holding ids) = True"
| "active (Launched ids res) = True"
| "active j = False"

definition init_gpus :: "host \<Rightarrow> runner \<Rightarrow> slot_table" where
  "init_gpus h r = make_gpus (all_gpu_ids (environ h) (device_count h)) (max_workers_per_gpu r)"

definition init_pool :: "host \<Rightarrow> runner \<Rightarrow> task list \<Rightarrow> world \<Rightarrow> pool" where
  "init_pool h r ts w = \<lparr>gpus = init_gpus h r, jobs = replicate (length ts) Queued, world = w\<rparr>"

text \<open>
  The next action of the call of \<open>submit\<close> for task \<open>k\<close>; \<open>None\<close> when it has none.
  The executor hands the tasks out in their order, to at most \<open>max_num_workers\<close> threads
  at a time. The work under the lock is one action; so is \<open>_launch\<close>, whose files are
  named after the index of the task.
\<close>

definition step :: "host \<Rightarrow> runner \<Rightarrow> task list \<Rightarrow> nat \<Rightarrow> pool \<Rightarrow> pool option" where
  "step h r ts k s =
     (if length ts \<le> k then None
      else case jobs s ! k of
        Queued \<Rightarrow>
          (if Queued \<notin> set (take k (jobs s))
              \<and> int (length (filter active (jobs s))) < max_num_workers r
           then Some (s\<lparr>jobs := (jobs s)[k :=
                   (if admit (gpus s) (num_gpus (ts ! k)) then Polling 0
                    else Faulted AssertionError [])]\<rparr>)
           else None)
      | Polling n \<Rightarrow>
          (case try_acquire (gpus s) (num_gpus (ts ! k)) of
             None \<Rightarrow> Some (s\<lparr>jobs := (jobs s)[k := Polling (Suc n)]\<rparr>)
           | Some (gpu_ids, g) \<Rightarrow> Some (s\<lparr>gpus := g, jobs := (jobs s)[k := Holding gpu_ids]\<rparr>))
      | Holding gpu_ids \<Rightarrow>
          (case launch_task h (ts ! k) gpu_ids k (world s) of
             (Inl err, w) \<Rightarrow> Some (s\<lparr>jobs := (jobs s)[k := Faulted err gpu_ids], world := w\<rparr>)
           | (Inr res, w) \<Rightarrow> Some (s\<lparr>jobs := (jobs s)[k := Launched gpu_ids res], world := w\<rparr>))
      | Launched gpu_ids res \<Rightarrow>
          Some (s\<lparr>gpus := inc_at gpu_ids (gpus s), jobs := (jobs s)[k := Done res]\<rparr>)
      | Done res \<Rightarrow> None
      | Faulted err gpu_ids \<Rightarrow> None)"

inductive reachable :: "host \<Rightarrow> runner \<Rightarrow> task list \<Rightarrow> world \<Rightarrow> pool \<Rightarrow> bool"
  for h :: host and r :: runner and ts :: "task list" and w :: world where
  reach_init: "reachable h r ts w (init_pool h r ts w)"
| reach_step: "reachable h r ts w s \<Longrightarrow> step h r ts k s = Some s' \<Longrightarrow> reachable h r ts w s'"

text \<open>An interleaving: which call of \<open>submit\<close> acts next.\<close>

fun run_sched :: "host \<Rightarrow> runner \<Rightarrow> task list \<Rightarrow> nat list \<Rightarrow> pool \<Rightarrow> pool option" where
  "run_sched h r ts [] s = Some s"
| "run_sched h r ts (k # ks) s =
     (case step h r ts k s of None \<Rightarrow> None | Some s' \<Rightarrow> run_sched h r ts ks s')"

fun finished :: "jstate \<Rightarrow> bool" where
  "finished (Done res) = True"
| "finished (Faulted err gpu_ids) = True"
| "finished j = False"

text \<open>
  The \<open>with ThreadPoolExecutor\<close> block ends when every call has returned or raised.
  Reading the results of \<open>executor.map\<close> gives them in the order of the tasks and raises
  the first exception met. \<open>None\<close>: some call has not ended.
\<close>

fun gather :: "jstate list \<Rightarrow> (error + (string \<times> int) list) option" where
  "gather [] = Some (Inr [])"
| "gather (Done res # js) =
     (case gather js of
        Some (Inr rs) \<Rightarrow> Some (Inr (res # rs))
      | other \<Rightarrow> other)"
| "gather (Faulted err gpu_ids # js) = (if list_all finished js then Some (Inl err) else None)"
| "gather (j # js) = None"

text \<open>
  \<open>launch\<close> under the interleaving \<open>sched\<close> (not used in debug mode). \<open>None\<close>: the
  interleaving does not bring every call to its end.
  \<open>ThreadPoolExecutor\<close> raises \<open>ValueError\<close> when \<open>max_workers\<close> is not positive.
\<close>

definition launch ::
  "host \<Rightarrow> runner \<Rightarrow> task list \<Rightarrow> nat list \<Rightarrow> world \<Rightarrow> (error + (string \<times> int) list) option" where
  "launch h r ts sched w =
     (if debug r then Some (fst (launch_debug h ts [] w))
      else if max_num_workers r \<le> 0 then Some (Inl ValueError)
      else case run_sched h r ts sched (init_pool h r ts w) of
             None \<Rightarrow> None
           | Some s \<Rightarrow> gather (jobs s))"

subsection \<open>Accounting of the slots\<close>

text \<open>The ids a call of \<open>submit\<close> has taken and not given back.\<close>

fun held :: "jstate \<Rightarrow> nat list" where
  "held (Holding gpu_ids) = gpu_ids"
| "held (Launched gpu_ids res) = gpu_ids"
| "held (Faulted err gpu_ids) = gpu_ids"
| "held j = []"

text \<open>The number of calls that have id \<open>i\<close> among the ids they took and did not give back.\<close>

definition claims :: "jstate list \<Rightarrow> nat \<Rightarrow> nat" where
  "claims js i = length (filter (\<lambda>j. i \<in> set (held j)) js)"

text \<open>The number of calls that are running now and hold id \<open>i\<close>.\<close>

definition holders :: "jstate list \<Rightarrow> nat \<Rightarrow> nat" where
  "holders js i = length (filter (\<lambda>j. active j \<and> i \<in> set (held j)) js)"

text \<open>
  The capacity of id \<open>i\<close> fixed by lines 85--89: \<open>max_workers_per_gpu\<close> (as the array
  stores it) for a visible id, 0 for any other index of the array.
\<close>

definition capacity :: "host \<Rightarrow> runner \<Rightarrow> nat \<Rightarrow> nat" where
  "capacity h r i =
     (if i \<in> set (all_gpu_ids (environ h) (device_count h))
      then unat (word_of_int (max_workers_per_gpu r) :: 64 word) else 0)"

definition total_capacity :: "slot_table \<Rightarrow> nat" where
  "total_capacity g = sum_list (map unat g)"

text \<open>Free slots plus claimed slots make up the initial table, id by id.\<close>

definition balanced :: "host \<Rightarrow> runner \<Rightarrow> task list \<Rightarrow> pool \<Rightarrow> bool" where
  "balanced h r ts s =
     (length (jobs s) = length ts \<and> length (gpus s) = length (init_gpus h r)
      \<and> list_all (\<lambda>i. unat (gpus s ! i) + claims (jobs s) i = unat (init_gpus h r ! i))
           [0..<length (gpus s)])"

fun returned :: "jstate \<Rightarrow> bool" where
  "returned (Done res) = True"
| "returned j = False"


subsection \<open>Example inputs\<close>

text \<open>
  A task whose command is the template with \<open>{task_cmd}\<close> (ten characters, at its end)
  replaced by a call of a script on the config file.
\<close>

definition ex_command :: "string \<Rightarrow> string \<Rightarrow> string" where
  "ex_command cfg_path template =
     take (length template - 10) template @ ''run.sh '' @ cfg_path"

definition ex_task :: "string \<Rightarrow> int \<Rightarrow> task" where
  "ex_task nm n = \<lparr>name = nm, num_gpus = n, get_command = ex_command,
     get_log_path = (\<lambda>ext. ''logs/'' @ nm @ ''.'' @ ext), run = None\<rparr>"

text \<open>A host with the given \<open>CUDA_VISIBLE_DEVICES\<close> on which every child ends with code 7.\<close>

definition ex_host :: "string \<Rightarrow> host" where
  "ex_host visible = \<lparr>environ = [''CUDA_VISIBLE_DEVICES'' \<mapsto> visible], device_count = 0,
     pid = 42, sp_run = (\<lambda>cmd. Inr 7), os_remove = (\<lambda>path. None)\<rparr>"

text \<open>The same host, but \<open>subprocess.run\<close> raises.\<close>

definition raising_host :: "string \<Rightarrow> host" where
  "raising_host visible = (ex_host visible)\<lparr>sp_run := (\<lambda>cmd. Inl (Raised ''OSError''))\<rparr>"

text \<open>The same host, but \<open>os.remove\<close> raises.\<close>

definition undeletable_host :: "string \<Rightarrow> host" where
  "undeletable_host visible =
     (ex_host visible)\<lparr>os_remove := (\<lambda>path. Some (Raised ''PermissionError''))\<rparr>"

definition ex_runner :: runner where
  "ex_runner = \<lparr>max_num_workers = 2, max_workers_per_gpu = 1, debug = False\<rparr>"

definition ex_world :: world where
  "ex_world = \<lparr>files = {}, logs = [], runs = []\<rparr>"

text \<open>Two of three one-GPU tasks hold the two GPUs of the host; the third waits in the queue.\<close>

definition ex_busy :: pool where
  "ex_busy = \<lparr>gpus = [0, 0], jobs = [Holding [0], Holding [1], Queued], world = ex_world\<rparr>"

text \<open>
  A task of the debug loop runs through without an exception: \<open>task.run()\<close> returns or
  \<open>subprocess.run\<close> returns with some return code, and \<open>os.remove\<close> succeeds.
\<close>

definition debug_ok :: "host \<Rightarrow> task \<Rightarrow> bool" where
  "debug_ok h t =
     ((if startswith (get_command t (debug_param_file h) ''{task_cmd}'') ''python''
       then run t = None
       else \<not> isl (sp_run h (get_command t (debug_param_file h) ''{task_cmd}'')))
      \<and> os_remove h (debug_param_file h) = None)"

text \<open>The one task of a batch has run on GPU 0 of the example host and has returned.\<close>

definition ex_done :: pool where
  "ex_done = \<lparr>gpus = [1], jobs = [Done (''a'', 7)],
     world = \<lparr>files = {''logs/a.out''},
       logs = [Debug ''Running command: CUDA_VISIBLE_DEVICES=0 run.sh tmp/42_0_params.py'',
               Warning (''task a fail, see'' @ [CHR 0x0A] @ ''logs/a.out'')],
       runs = [''CUDA_VISIBLE_DEVICES=0 run.sh tmp/42_0_params.py'']\<rparr>\<rparr>"







section \<open>Properties\<close>

subsection \<open>Evaluation of the examples\<close>

lemma ex_runner_sel:
  "max_num_workers ex_runner = 2" "max_workers_per_gpu ex_runner = 1" "debug ex_runner = False"
  by (simp_all add: ex_runner_def)

lemma ex_host_sel:
  "environ (ex_host v) = [''CUDA_VISIBLE_DEVICES'' \<mapsto> v]" "device_count (ex_host v) = 0"
  "pid (ex_host v) = 42" "sp_run (ex_host v) = (\<lambda>cmd. Inr 7)"
  "os_remove (ex_host v) = (\<lambda>path. None)"
  by (simp_all add: ex_host_def)

lemma ex_task_sel:
  "name (ex_task nm n) = nm" "num_gpus (ex_task nm n) = n"
  "get_command (ex_task nm n) = ex_command"
  "get_log_path (ex_task nm n) = (\<lambda>ext. ''logs/'' @ nm @ ''.'' @ ext)"
  "run (ex_task nm n) = None"
  by (simp_all add: ex_task_def)

lemma ids_sparse: "all_gpu_ids (environ (ex_host ''1'')) (device_count (ex_host ''1'')) = [1]"
  by (simp add: ex_host_sel all_gpu_ids_def is_digit_def py_int_def digit_val_def)

lemma ids_two: "all_gpu_ids (environ (ex_host ''0,1'')) (device_count (ex_host ''0,1'')) = [0, 1]"
  by (simp add: ex_host_sel all_gpu_ids_def is_digit_def py_int_def digit_val_def)

lemma ids_one: "all_gpu_ids (environ (ex_host ''0'')) (device_count (ex_host ''0'')) = [0]"
  by (simp add: ex_host_sel all_gpu_ids_def is_digit_def py_int_def digit_val_def)

lemma init_sparse: "init_gpus (ex_host ''1'') ex_runner = [0, 1]"
  by (simp add: init_gpus_def ids_sparse ex_runner_sel make_gpus_def assign_at_def)

lemma init_two: "init_gpus (ex_host ''0,1'') ex_runner = [1, 1]"
  by (simp add: init_gpus_def ids_two ex_runner_sel make_gpus_def assign_at_def)

lemma init_one: "init_gpus (ex_host ''0'') ex_runner = [1]"
  by (simp add: init_gpus_def ids_one ex_runner_sel make_gpus_def assign_at_def)

subsection \<open>Acquiring and releasing\<close>

lemma filter_update_count:
  "k < length js \<Longrightarrow>
   length (filter P (js[k := x])) + (if P (js ! k) then 1 else 0)
     = length (filter P js) + (if P x then 1 else 0)"
proof (induction js arbitrary: k)
  case Nil
  then show ?case by simp
next
  case (Cons j js)
  show ?case
  proof (cases k)
    case 0
    then show ?thesis by simp
  next
    case (Suc m)
    with Cons.prems have "m < length js" by simp
    from Cons.IH [OF this] Suc show ?thesis by simp
  qed
qed

lemma claims_update:
  "k < length js \<Longrightarrow>
   claims (js[k := x]) i + (if i \<in> set (held (js ! k)) then 1 else 0)
     = claims js i + (if i \<in> set (held x) then 1 else 0)"
  unfolding claims_def by (rule filter_update_count)

lemma claims_update_same:
  "k < length js \<Longrightarrow> held x = held (js ! k) \<Longrightarrow> claims (js[k := x]) i = claims js i"
  using claims_update [of k js x i] by simp

lemma try_acquire_Some:
  assumes "try_acquire g n = Some (ids, g')"
  shows "length g' = length g"
    and "\<And>i. i \<in> set ids \<Longrightarrow> i < length g \<and> g ! i \<noteq> 0"
    and "\<And>i. i < length g \<Longrightarrow> g' ! i = (if i \<in> set ids then g ! i - 1 else g ! i)"
proof -
  from assms have ids: "ids = py_take n (where_nz g)" and g': "g' = dec_at ids g"
    by (auto simp: try_acquire_def Let_def split: if_splits)
  show "length g' = length g" by (simp add: g' dec_at_def)
  show "\<And>i. i < length g \<Longrightarrow> g' ! i = (if i \<in> set ids then g ! i - 1 else g ! i)"
    by (simp add: g' dec_at_def)
  have "set ids \<subseteq> set (where_nz g)"
    unfolding ids py_take_def by (auto dest: in_set_takeD)
  then show "\<And>i. i \<in> set ids \<Longrightarrow> i < length g \<and> g ! i \<noteq> 0"
    by (auto simp: where_nz_def)
qed

lemma unat_dec: "(x :: 64 word) \<noteq> 0 \<Longrightarrow> Suc (unat (x - 1)) = unat x"
  by (simp add: unat_minus_one unat_gt_0)

lemma unat_inc: "unat (x :: 64 word) < unat (y :: 64 word) \<Longrightarrow> unat (x + 1) = Suc (unat x)"
proof -
  assume lt: "unat x < unat y"
  have "unat y < 2 ^ 64" using unsigned_less [of y] by simp
  with lt have "unat x + 1 < 2 ^ 64" by simp
  then show ?thesis by (simp add: unat_word_ariths)
qed

text \<open>C5: an acquire with count 0 succeeds on its first pass through the loop, for every
  slot table (the empty one included): it takes no id and changes no counter, and
  since the result is never \<open>None\<close> it never sleeps and never retries.\<close>

theorem acquire_zero_immediate: "try_acquire g 0 = Some ([], g)"
  by (simp add: try_acquire_def py_take_def dec_at_def map_nth)

subsection \<open>The invariant of the slot table\<close>

lemma step_Some:
  assumes "step h r ts k s = Some s'"
  obtains
    (start) "k < length ts" "jobs s ! k = Queued"
      "s' = s\<lparr>jobs := (jobs s)[k := Polling 0]\<rparr>"
  | (reject) "k < length ts" "jobs s ! k = Queued"
      "s' = s\<lparr>jobs := (jobs s)[k := Faulted AssertionError []]\<rparr>"
  | (sleep) n where "k < length ts" "jobs s ! k = Polling n"
      "s' = s\<lparr>jobs := (jobs s)[k := Polling (Suc n)]\<rparr>"
  | (take) n ids g where "k < length ts" "jobs s ! k = Polling n"
      "try_acquire (gpus s) (num_gpus (ts ! k)) = Some (ids, g)"
      "s' = s\<lparr>gpus := g, jobs := (jobs s)[k := Holding ids]\<rparr>"
  | (fault) ids err w where "k < length ts" "jobs s ! k = Holding ids"
      "launch_task h (ts ! k) ids k (world s) = (Inl err, w)"
      "s' = s\<lparr>jobs := (jobs s)[k := Faulted err ids], world := w\<rparr>"
  | (launched) ids res w where "k < length ts" "jobs s ! k = Holding ids"
      "launch_task h (ts ! k) ids k (world s) = (Inr res, w)"
      "s' = s\<lparr>jobs := (jobs s)[k := Launched ids res], world := w\<rparr>"
  | (release) ids res where "k < length ts" "jobs s ! k = Launched ids res"
      "s' = s\<lparr>gpus := inc_at ids (gpus s), jobs := (jobs s)[k := Done res]\<rparr>"
  using assms
  by (auto simp: step_def split: if_splits jstate.splits option.splits prod.splits sum.splits)

lemma list_all_upt: "list_all P [0..<n] \<longleftrightarrow> (\<forall>i<n. P i)"
  by (auto simp: list_all_iff)

lemma balancedI:
  assumes "length (jobs s) = length ts" "length (gpus s) = length (init_gpus h r)"
    and "\<And>i. i < length (gpus s) \<Longrightarrow>
           unat (gpus s ! i) + claims (jobs s) i = unat (init_gpus h r ! i)"
  shows "balanced h r ts s"
  using assms by (simp add: balanced_def list_all_upt)

lemma balancedD:
  assumes "balanced h r ts s"
  shows "length (jobs s) = length ts" "length (gpus s) = length (init_gpus h r)"
    and "\<And>i. i < length (gpus s) \<Longrightarrow>
           unat (gpus s ! i) + claims (jobs s) i = unat (init_gpus h r ! i)"
  using assms by (simp_all add: balanced_def list_all_upt)

lemma balanced_same_held:
  assumes b: "balanced h r ts s" and k: "k < length ts"
    and x: "held x = held (jobs s ! k)"
  shows "balanced h r ts (s\<lparr>jobs := (jobs s)[k := x], world := w\<rparr>)"
proof -
  from balancedD(1) [OF b] k have kk: "k < length (jobs s)" by simp
  show ?thesis
    using balancedD [OF b] claims_update_same [OF kk x]
    by (intro balancedI) simp_all
qed

lemma balanced_take:
  assumes b: "balanced h r ts s" and k: "k < length ts"
    and p: "jobs s ! k = Polling n"
    and a: "try_acquire (gpus s) m = Some (ids, g)"
  shows "balanced h r ts (s\<lparr>gpus := g, jobs := (jobs s)[k := Holding ids]\<rparr>)"
proof (rule balancedI)
  from balancedD(1) [OF b] k have kk: "k < length (jobs s)" by simp
  note ta = try_acquire_Some [OF a]
  show "length (jobs (s\<lparr>gpus := g, jobs := (jobs s)[k := Holding ids]\<rparr>)) = length ts"
    using balancedD(1) [OF b] by simp
  show "length (gpus (s\<lparr>gpus := g, jobs := (jobs s)[k := Holding ids]\<rparr>)) = length (init_gpus h r)"
    using balancedD(2) [OF b] ta(1) by simp
  fix i
  assume "i < length (gpus (s\<lparr>gpus := g, jobs := (jobs s)[k := Holding ids]\<rparr>))"
  then have i: "i < length (gpus s)" using ta(1) by simp
  have c: "claims ((jobs s)[k := Holding ids]) i
             = claims (jobs s) i + (if i \<in> set ids then 1 else 0)"
    using claims_update [OF kk, of "Holding ids" i] p by simp
  show "unat (gpus (s\<lparr>gpus := g, jobs := (jobs s)[k := Holding ids]\<rparr>) ! i)
          + claims (jobs (s\<lparr>gpus := g, jobs := (jobs s)[k := Holding ids]\<rparr>)) i
        = unat (init_gpus h r ! i)"
  proof (cases "i \<in> set ids")
    case True
    with ta(2) have "gpus s ! i \<noteq> 0" by blast
    from unat_dec [OF this] balancedD(3) [OF b i] True c ta(3) [OF i]
    show ?thesis by simp
  next
    case False
    with balancedD(3) [OF b i] c ta(3) [OF i] show ?thesis by simp
  qed
qed

lemma balanced_release:
  assumes b: "balanced h r ts s" and k: "k < length ts"
    and p: "jobs s ! k = Launched ids res"
  shows "balanced h r ts (s\<lparr>gpus := inc_at ids (gpus s), jobs := (jobs s)[k := Done res]\<rparr>)"
proof (rule balancedI)
  let ?s' = "s\<lparr>gpus := inc_at ids (gpus s), jobs := (jobs s)[k := Done res]\<rparr>"
  from balancedD(1) [OF b] k have kk: "k < length (jobs s)" by simp
  show "length (jobs ?s') = length ts" using balancedD(1) [OF b] by simp
  show "length (gpus ?s') = length (init_gpus h r)"
    using balancedD(2) [OF b] by (simp add: inc_at_def)
  fix i
  assume "i < length (gpus ?s')"
  then have i: "i < length (gpus s)" by (simp add: inc_at_def)
  have c: "claims ((jobs s)[k := Done res]) i + (if i \<in> set ids then 1 else 0)
             = claims (jobs s) i"
    using claims_update [OF kk, of "Done res" i] p by simp
  show "unat (gpus ?s' ! i) + claims (jobs ?s') i = unat (init_gpus h r ! i)"
  proof (cases "i \<in> set ids")
    case True
    with c have "0 < claims (jobs s) i" by simp
    with balancedD(3) [OF b i] have "unat (gpus s ! i) < unat (init_gpus h r ! i)" by simp
    from unat_inc [OF this] balancedD(3) [OF b i] True c i
    show ?thesis by (simp add: inc_at_def)
  next
    case False
    with balancedD(3) [OF b i] c i show ?thesis by (simp add: inc_at_def)
  qed
qed

lemma balanced_step:
  assumes b: "balanced h r ts s" and st: "step h r ts k s = Some s'"
  shows "balanced h r ts s'"
  using st
proof (cases rule: step_Some)
  case start
  with balanced_same_held [OF b start(1), of "Polling 0" "world s"] show ?thesis by simp
next
  case reject
  with balanced_same_held [OF b reject(1), of "Faulted AssertionError []" "world s"]
  show ?thesis by simp
next
  case (sleep n)
  with balanced_same_held [OF b sleep(1), of "Polling (Suc n)" "world s"] show ?thesis by simp
next
  case (take n ids g)
  with balanced_take [OF b take(1) take(2) take(3)] show ?thesis by simp
next
  case (fault ids err w)
  with balanced_same_held [OF b fault(1), of "Faulted err ids" w] show ?thesis by simp
next
  case (launched ids res w)
  with balanced_same_held [OF b launched(1), of "Launched ids res" w] show ?thesis by simp
next
  case (release ids res)
  with balanced_release [OF b release(1) release(2)] show ?thesis by simp
qed

lemma claims_replicate_Queued: "claims (replicate n Queued) i = 0"
  by (simp add: claims_def)

lemma balanced_init: "balanced h r ts (init_pool h r ts w)"
  by (rule balancedI) (simp_all add: init_pool_def claims_replicate_Queued)

lemma reachable_balanced: "reachable h r ts w s \<Longrightarrow> balanced h r ts s"
  by (induction rule: reachable.induct) (auto intro: balanced_init balanced_step)

lemma run_sched_reachable:
  "reachable h r ts w s \<Longrightarrow> run_sched h r ts ks s = Some s' \<Longrightarrow> reachable h r ts w s'"
proof (induction ks arbitrary: s)
  case Nil
  then show ?case by simp
next
  case (Cons k ks)
  from Cons.prems(2) obtain s1 where s1: "step h r ts k s = Some s1"
    and rest: "run_sched h r ts ks s1 = Some s'"
    by (auto split: option.splits)
  from Cons.prems(1) s1 have "reachable h r ts w s1" by (rule reach_step)
  from Cons.IH [OF this rest] show ?case .
qed

lemma length_assign_at: "length (assign_at ids v g) = length g"
  by (simp add: assign_at_def)

lemma assign_at_nth:
  "i < length g \<Longrightarrow> assign_at ids v g ! i = (if i \<in> set ids then v else g ! i)"
  by (simp add: assign_at_def)

lemma init_gpus_nth:
  assumes "i < length (init_gpus h r)"
  shows "unat (init_gpus h r ! i) = capacity h r i"
proof -
  let ?ids = "all_gpu_ids (environ h) (device_count h)"
  from assms have ne: "0 < length ?ids"
    by (auto simp: init_gpus_def make_gpus_def split: if_splits)
  then have g: "init_gpus h r
      = assign_at ?ids (word_of_int (max_workers_per_gpu r)) (replicate (Max (set ?ids) + 1) 0)"
    by (simp add: init_gpus_def make_gpus_def)
  from assms have i: "i < length (replicate (Max (set ?ids) + 1) (0 :: 64 word))"
    unfolding g length_assign_at .
  then have "(replicate (Max (set ?ids) + 1) (0 :: 64 word)) ! i = 0"
    by (simp del: replicate_Suc)
  with assign_at_nth [OF i, of ?ids "word_of_int (max_workers_per_gpu r)"]
  show ?thesis unfolding g capacity_def by simp
qed

lemma holders_le_claims: "holders js i \<le> claims js i"
proof -
  have "filter (\<lambda>j. active j \<and> i \<in> set (held j)) js
          = filter active (filter (\<lambda>j. i \<in> set (held j)) js)"
    by (simp add: conj_commute)
  then show ?thesis unfolding holders_def claims_def by (simp del: filter_filter)
qed

text \<open>C1: in every state that the calls of \<open>submit\<close> can reach from the initial slot
  table, the free counter of every id is at most the capacity fixed at construction
  (\<open>max_workers_per_gpu\<close> for a visible id), the number of running calls that hold the
  id is at most that capacity, and so is their sum. The counters are unsigned, and the
  bound shows that they never wrap around.\<close>

theorem slots_within_capacity:
  assumes "reachable h r ts w s" and "i < length (gpus s)"
  shows "unat (gpus s ! i) \<le> capacity h r i \<and> holders (jobs s) i \<le> capacity h r i
           \<and> unat (gpus s ! i) + holders (jobs s) i \<le> capacity h r i"
proof -
  from reachable_balanced [OF assms(1)] have b: "balanced h r ts s" .
  from balancedD(2) [OF b] assms(2) have "i < length (init_gpus h r)" by simp
  from init_gpus_nth [OF this] balancedD(3) [OF b assms(2)] holders_le_claims [of "jobs s" i]
  show ?thesis by simp
qed

lemma ex_busy_reachable:
  "reachable (ex_host ''0,1'') ex_runner [ex_task ''a'' 1, ex_task ''b'' 1, ex_task ''c'' 1] ex_world ex_busy"
proof -
  have "run_sched (ex_host ''0,1'') ex_runner [ex_task ''a'' 1, ex_task ''b'' 1, ex_task ''c'' 1]
          [0, 0, 1, 1] (init_pool (ex_host ''0,1'') ex_runner [ex_task ''a'' 1, ex_task ''b'' 1, ex_task ''c'' 1] ex_world)
        = Some ex_busy"
    by (simp add: init_pool_def init_two step_def admit_def try_acquire_def count_free_def
        where_nz_def py_take_def dec_at_def ex_task_sel ex_runner_sel ex_busy_def)
  from run_sched_reachable [OF reach_init this] show ?thesis .
qed

theorem slots_within_capacity_witness:
  "reachable (ex_host ''0,1'') ex_runner [ex_task ''a'' 1, ex_task ''b'' 1, ex_task ''c'' 1] ex_world ex_busy
   \<and> 1 < length (gpus ex_busy)
   \<and> unat (gpus ex_busy ! 1) \<le> capacity (ex_host ''0,1'') ex_runner 1
   \<and> holders (jobs ex_busy) 1 \<le> capacity (ex_host ''0,1'') ex_runner 1
   \<and> unat (gpus ex_busy ! 1) + holders (jobs ex_busy) 1 \<le> capacity (ex_host ''0,1'') ex_runner 1
   \<and> holders (jobs ex_busy) 1 = 1 \<and> capacity (ex_host ''0,1'') ex_runner 1 = 1"
proof -
  have len: "1 < length (gpus ex_busy)" by (simp add: ex_busy_def)
  have "holders (jobs ex_busy) 1 = 1" by (simp add: ex_busy_def holders_def)
  moreover have "capacity (ex_host ''0,1'') ex_runner 1 = 1"
    by (simp add: capacity_def ids_two ex_runner_sel)
  ultimately show ?thesis
    using slots_within_capacity [OF ex_busy_reachable len] ex_busy_reachable len by simp
qed

subsection \<open>Discovery of the ids\<close>

lemma discovery_absent: "all_gpu_ids Map.empty d = [0..<d]"
  by (simp add: all_gpu_ids_def)

text \<open>C9: on the value \<open>0,-12\<close> of the visibility variable the code finds the ids 0 and 2:
  the lookbehind only forbids a match that starts right behind the minus sign, so the
  match starts one digit later, inside the run of digits. The runs of digits that have
  no minus sign before them give the id 0 alone.\<close>

theorem discovery_two_digit_negative:
  "all_gpu_ids [''CUDA_VISIBLE_DEVICES'' \<mapsto> ''0,-12''] 0 = [0, 2]
   \<and> spec_inventory [''CUDA_VISIBLE_DEVICES'' \<mapsto> ''0,-12''] 0 = [0]"
  by (simp add: all_gpu_ids_def spec_inventory_def is_digit_def py_int_def digit_val_def)

subsection \<open>Admission\<close>

text \<open>C3: with only GPU 1 visible the array has two entries and a total capacity of one
  slot. A task that asks for two GPUs passes the assertion of line 97, which compares
  the demand with the length of the array, and then sleeps in the loop at every pass.\<close>

theorem over_demand_admitted:
  "total_capacity (init_gpus (ex_host ''1'') ex_runner) = 1
   \<and> num_gpus (ex_task ''a'' 2) = 2
   \<and> admit (init_gpus (ex_host ''1'') ex_runner) (num_gpus (ex_task ''a'' 2))
   \<and> run_sched (ex_host ''1'') ex_runner [ex_task ''a'' 2] [0, 0, 0, 0]
        (init_pool (ex_host ''1'') ex_runner [ex_task ''a'' 2] ex_world)
      = Some \<lparr>gpus = [0, 1], jobs = [Polling 3], world = ex_world\<rparr>"
  by (simp add: init_pool_def init_sparse total_capacity_def step_def admit_def try_acquire_def
      count_free_def ex_task_sel ex_runner_sel)

text \<open>On that input the call never leaves the loop, whatever the interleaving.\<close>

lemma over_demand_polls_forever:
  assumes "reachable (ex_host ''1'') ex_runner [ex_task ''a'' 2] w s"
  shows "gpus s = [0, 1] \<and> world s = w \<and> (jobs s = [Queued] \<or> (\<exists>n. jobs s = [Polling n]))"
  using assms
proof (induction rule: reachable.induct)
  case reach_init
  show ?case by (simp add: init_pool_def init_sparse)
next
  case (reach_step s k s')
  from reach_step.IH have g: "gpus s = [0, 1]" and w: "world s = w"
    and j: "jobs s = [Queued] \<or> (\<exists>n. jobs s = [Polling n])" by simp_all
  have none: "try_acquire (gpus s) (num_gpus ([ex_task ''a'' 2] ! 0)) = None"
    by (simp add: g try_acquire_def count_free_def ex_task_sel)
  have adm: "admit (gpus s) (num_gpus ([ex_task ''a'' 2] ! 0))"
    by (simp add: g admit_def ex_task_sel)
  from reach_step.hyps(2) show ?case
  proof (cases rule: step_Some)
    case start
    with g w j show ?thesis by auto
  next
    case reject
    then have "k = 0" by simp
    with reach_step.hyps(2) reject(2) adm have "s' = s\<lparr>jobs := (jobs s)[0 := Polling 0]\<rparr>"
      by (simp add: step_def split: if_splits)
    with g w j show ?thesis by auto
  next
    case (sleep n)
    with g w j show ?thesis by auto
  next
    case (take n ids g')
    then have "k = 0" by simp
    with take(3) none show ?thesis by simp
  next
    case (fault ids err w')
    with j show ?thesis by auto
  next
    case (launched ids res w')
    with j show ?thesis by auto
  next
    case (release ids res)
    with j show ?thesis by auto
  qed
qed

subsection \<open>The command of a task\<close>

lemma ex_command_tmpl:
  "ex_command p (tmpl ids)
     = ''CUDA_VISIBLE_DEVICES='' @ join '','' (map str_nat ids) @ '' run.sh '' @ p"
  by (simp add: ex_command_def tmpl_def)

lemma ex_command_debug: "ex_command p ''{task_cmd}'' = ''run.sh '' @ p"
  by (simp add: ex_command_def)

text \<open>C8, as the claim states it, fails: a task with demand 0 on a host without GPUs is run
  by a command that sets the visibility variable, to the empty string.\<close>

theorem visibility_set_for_zero_demand:
  "num_gpus (ex_task ''cpu'' 0) = 0
   \<and> map_option (\<lambda>s. runs (world s))
        (run_sched (ex_host '''') ex_runner [ex_task ''cpu'' 0] [0, 0, 0, 0]
           (init_pool (ex_host '''') ex_runner [ex_task ''cpu'' 0] ex_world))
      = Some [''CUDA_VISIBLE_DEVICES= run.sh tmp/42_0_params.py'']"
  apply (simp add: init_pool_def init_gpus_def ex_host_sel all_gpu_ids_def make_gpus_def)
  apply (simp add: step_def admit_def try_acquire_def count_free_def where_nz_def py_take_def
      dec_at_def inc_at_def ex_task_sel ex_runner_sel launch_task_def Let_def param_file_def
      ex_command_tmpl ex_host_sel ex_world_def str_nat.simps digit_char_def)
  done

text \<open>C8, amended: \<open>_launch\<close> binds the granted ids into the visibility variable for every
  task, whatever its demand: the command it runs is resolved from the template that
  starts with \<open>CUDA_VISIBLE_DEVICES=\<close> and the granted ids, joined by commas. For the
  empty id set of a task with demand 0 the variable is set to the empty string.\<close>

theorem visibility_always_bound:
  "runs (snd (launch_task h t gpu_ids k w))
     = runs w @ [get_command t (param_file h k)
          (''CUDA_VISIBLE_DEVICES='' @ join '','' (map str_nat gpu_ids) @ '' {task_cmd}'')]
   \<and> runs (snd (launch_task h t (fst (the (try_acquire g 0))) k w))
     = runs w @ [get_command t (param_file h k) ''CUDA_VISIBLE_DEVICES= {task_cmd}'']"
  by (simp add: launch_task_def tmpl_def Let_def try_acquire_def py_take_def
      split: sum.splits option.splits)

subsection \<open>Debug mode\<close>

lemma launch_debug_Inr:
  "(fst (launch_debug h ts acc w) = Inr st)
     = (list_all (debug_ok h) ts \<and> st = acc @ map (\<lambda>t. (name t, 0)) ts)"
proof (induction ts arbitrary: acc w)
  case Nil
  show ?case by auto
next
  case (Cons t ts)
  show ?case
  proof (cases "debug_ok h t")
    case True
    then show ?thesis
      using Cons.IH
      by (auto simp: debug_ok_def Let_def isl_def split: if_splits sum.splits option.splits)
  next
    case False
    then show ?thesis
      by (auto simp: debug_ok_def Let_def isl_def split: if_splits sum.splits option.splits)
  qed
qed

text \<open>C10: in debug mode \<open>launch\<close> returns outcomes exactly when no task of the batch
  raises, and then every task is reported with exit code 0, whatever the return code
  of its subprocess: the return code is not read.\<close>

theorem debug_reports_zero:
  assumes "debug r"
  shows "(launch h r ts sched w = Some (Inr st))
           = (list_all (debug_ok h) ts \<and> st = map (\<lambda>t. (name t, 0)) ts)"
  using assms launch_debug_Inr [of h ts "[]" w st] by (simp add: launch_def)

theorem debug_reports_zero_witness:
  "debug (ex_runner\<lparr>debug := True\<rparr>)
   \<and> sp_run (ex_host ''0'')
        (get_command (ex_task ''a'' 1) (debug_param_file (ex_host ''0'')) ''{task_cmd}'') = Inr 7
   \<and> launch (ex_host ''0'') (ex_runner\<lparr>debug := True\<rparr>) [ex_task ''a'' 1, ex_task ''b'' 0] []
        ex_world
       = Some (Inr [(''a'', 0), (''b'', 0)])"
proof -
  have d: "debug (ex_runner\<lparr>debug := True\<rparr>)" by simp
  have ok: "list_all (debug_ok (ex_host ''0'')) [ex_task ''a'' 1, ex_task ''b'' 0]"
    by (simp add: debug_ok_def ex_task_sel ex_host_sel ex_command_debug startswith_def)
  from debug_reports_zero [OF d, of "ex_host ''0''" "[ex_task ''a'' 1, ex_task ''b'' 0]" "[]"
      ex_world "[(''a'', 0), (''b'', 0)]"] ok
  show ?thesis by (simp add: ex_task_sel ex_host_sel)
qed

subsection \<open>Release of the ids\<close>

lemma balanced_returned:
  assumes b: "balanced h r ts s" and d: "list_all returned (jobs s)"
  shows "gpus s = init_gpus h r"
proof (rule nth_equalityI)
  show "length (gpus s) = length (init_gpus h r)" by (rule balancedD(2) [OF b])
  fix i
  assume i: "i < length (gpus s)"
  have "filter (\<lambda>j. i \<in> set (held j)) (jobs s) = []"
  proof -
    have "\<And>j. j \<in> set (jobs s) \<Longrightarrow> held j = []"
    proof -
      fix j assume "j \<in> set (jobs s)"
      with d have "returned j" by (simp add: list_all_iff)
      then show "held j = []" by (cases j) simp_all
    qed
    then show ?thesis by (simp add: filter_empty_conv)
  qed
  then have "claims (jobs s) i = 0" by (simp add: claims_def)
  with balancedD(3) [OF b i] have "unat (gpus s ! i) = unat (init_gpus h r ! i)" by simp
  then show "gpus s ! i = init_gpus h r ! i" by (simp only: word_unat_eq_iff)
qed


text \<open>C4, amended: on the exit paths on which \<open>_launch\<close> returns (the child ended with
  code 0 or with another code) the ids are given back once: in every reachable state the
  free counter of an id plus the number of calls that still claim it (calls that are
  running, and calls that an exception has ended) is the initial counter, so when every
  call of the batch has returned an outcome the slot table is the initial one.\<close>

theorem released_when_returned:
  assumes "reachable h r ts w s"
  shows "list_all (\<lambda>i. unat (gpus s ! i) + claims (jobs s) i = unat (init_gpus h r ! i))
           [0..<length (gpus s)]
         \<and> (list_all returned (jobs s) \<longrightarrow> gpus s = init_gpus h r)"
proof -
  from reachable_balanced [OF assms] have b: "balanced h r ts s" .
  then have "list_all (\<lambda>i. unat (gpus s ! i) + claims (jobs s) i = unat (init_gpus h r ! i))
           [0..<length (gpus s)]"
    unfolding balanced_def by blast
  moreover have "list_all returned (jobs s) \<longrightarrow> gpus s = init_gpus h r"
    using balanced_returned [OF b] by blast
  ultimately show ?thesis by blast
qed

lemma launch_task_ex:
  "launch_task (ex_host v) (ex_task nm n) ids k w
     = (Inr (nm, 7),
        w\<lparr>files := insert (''logs/'' @ nm @ ''.out'') (insert (param_file (ex_host v) k) (files w))
                    - {param_file (ex_host v) k},
          logs := logs w @ [Debug (''Running command: '' @ ex_command (param_file (ex_host v) k) (tmpl ids)),
                            Warning (''task '' @ nm @ '' fail, see'' @ [CHR 0x0A] @ ''logs/'' @ nm @ ''.out'')],
          runs := runs w @ [ex_command (param_file (ex_host v) k) (tmpl ids)]\<rparr>)"
  by (simp add: launch_task_def Let_def ex_host_sel ex_task_sel warning_line_def)

lemma param_file_ex: "param_file (ex_host v) 0 = ''tmp/42_0_params.py''"
  "param_file (ex_host v) 1 = ''tmp/42_1_params.py''"
  by (simp_all add: param_file_def ex_host_sel str_nat.simps digit_char_def)

lemma ex_done_reachable:
  "reachable (ex_host ''0'') ex_runner [ex_task ''a'' 1] ex_world ex_done"
proof -
  have "run_sched (ex_host ''0'') ex_runner [ex_task ''a'' 1] [0, 0, 0, 0]
          (init_pool (ex_host ''0'') ex_runner [ex_task ''a'' 1] ex_world) = Some ex_done"
    by (simp add: init_pool_def init_one step_def admit_def try_acquire_def count_free_def
        where_nz_def py_take_def dec_at_def inc_at_def ex_task_sel ex_runner_sel launch_task_ex
        param_file_ex ex_command_tmpl str_nat.simps digit_char_def ex_done_def ex_world_def
        insert_Diff_if)
  from run_sched_reachable [OF reach_init this] show ?thesis .
qed

theorem released_when_returned_witness:
  "reachable (ex_host ''0'') ex_runner [ex_task ''a'' 1] ex_world ex_done
   \<and> list_all returned (jobs ex_done)
   \<and> gpus ex_done = init_gpus (ex_host ''0'') ex_runner
   \<and> unat (gpus ex_done ! 0) + claims (jobs ex_done) 0 = unat (init_gpus (ex_host ''0'') ex_runner ! 0)"
proof -
  have d: "list_all returned (jobs ex_done)" by (simp add: ex_done_def)
  have l: "length (gpus ex_done) = 1" by (simp add: ex_done_def)
  have c: "claims (jobs ex_done) 0 = 0" by (simp add: ex_done_def claims_def)
  from released_when_returned [OF ex_done_reachable] d ex_done_reachable l c
  show ?thesis by simp
qed

text \<open>C4, as the claim states it, fails: when \<open>subprocess.run\<close> raises inside
  \<open>_launch\<close>, the exception leaves \<open>submit\<close> before line 118, the id stays taken and
  the counter of GPU 0 is 0 at the end of the batch, not 1.\<close>

theorem ids_lost_on_exception:
  "init_gpus (raising_host ''0'') ex_runner = [1]
   \<and> map_option (\<lambda>s. (gpus s, jobs s))
        (run_sched (raising_host ''0'') ex_runner [ex_task ''a'' 1] [0, 0, 0]
           (init_pool (raising_host ''0'') ex_runner [ex_task ''a'' 1] ex_world))
       = Some ([0], [Faulted (Raised ''OSError'') [0]])
   \<and> launch (raising_host ''0'') ex_runner [ex_task ''a'' 1] [0, 0, 0] ex_world
       = Some (Inl (Raised ''OSError''))"
proof -
  have i: "init_gpus (raising_host ''0'') ex_runner = [1]"
    using init_one by (simp add: init_gpus_def raising_host_def)
  obtain w' where l: "launch_task (raising_host ''0'') (ex_task ''a'' 1) [0] 0 ex_world
      = (Inl (Raised ''OSError''), w')"
    by (simp add: launch_task_def Let_def raising_host_def)
  have run: "run_sched (raising_host ''0'') ex_runner [ex_task ''a'' 1] [0, 0, 0]
           (init_pool (raising_host ''0'') ex_runner [ex_task ''a'' 1] ex_world)
        = Some \<lparr>gpus = [0], jobs = [Faulted (Raised ''OSError'') [0]], world = w'\<rparr>"
    by (simp add: init_pool_def i step_def admit_def try_acquire_def count_free_def
        where_nz_def py_take_def dec_at_def ex_task_sel ex_runner_sel l)
  then show ?thesis using i by (simp add: launch_def ex_runner_sel)
qed

subsection \<open>\<open>_launch\<close>\<close>

lemma launch_task_cases:
  "launch_task h t ids k w =
     (case sp_run h (get_command t (param_file h k) (tmpl ids)) of
        Inl err \<Rightarrow> (Inl err,
          w\<lparr>files := insert (get_log_path t ''out'') (insert (param_file h k) (files w)),
            logs := logs w @ [Debug (''Running command: '' @ get_command t (param_file h k) (tmpl ids))],
            runs := runs w @ [get_command t (param_file h k) (tmpl ids)]\<rparr>)
      | Inr rc \<Rightarrow>
          (case os_remove h (param_file h k) of
             Some err \<Rightarrow> (Inl err,
               w\<lparr>files := insert (get_log_path t ''out'') (insert (param_file h k) (files w)),
                 logs := logs w @ [Debug (''Running command: '' @ get_command t (param_file h k) (tmpl ids))]
                          @ (if rc \<noteq> 0 then [warning_line t] else []),
                 runs := runs w @ [get_command t (param_file h k) (tmpl ids)]\<rparr>)
           | None \<Rightarrow> (Inr (name t, rc),
               w\<lparr>files := insert (get_log_path t ''out'') (insert (param_file h k) (files w))
                           - {param_file h k},
                 logs := logs w @ [Debug (''Running command: '' @ get_command t (param_file h k) (tmpl ids))]
                          @ (if rc \<noteq> 0 then [warning_line t] else []),
                 runs := runs w @ [get_command t (param_file h k) (tmpl ids)]\<rparr>)))"
  by (simp add: launch_task_def Let_def split: sum.splits option.splits)

text \<open>C7, amended: when the child process has ended, with any return code, and the
  deletion succeeds, the temporary config file is gone and the outcome is the name with
  the return code. Nothing is caught: when \<open>subprocess.run\<close> raises, the exception
  leaves \<open>_launch\<close> and the file stays; when \<open>os.remove\<close> raises, the exception leaves
  \<open>_launch\<close>, the job has no outcome and nothing more is logged than without the failure.\<close>

theorem config_file_cleanup:
  "(sp_run h (get_command t (param_file h k) (tmpl ids)) = Inr rc \<and> os_remove h (param_file h k) = None
      \<longrightarrow> fst (launch_task h t ids k w) = Inr (name t, rc)
          \<and> param_file h k \<notin> files (snd (launch_task h t ids k w)))
   \<and> (sp_run h (get_command t (param_file h k) (tmpl ids)) = Inl err
      \<longrightarrow> fst (launch_task h t ids k w) = Inl err
          \<and> param_file h k \<in> files (snd (launch_task h t ids k w)))
   \<and> (sp_run h (get_command t (param_file h k) (tmpl ids)) = Inr rc \<and> os_remove h (param_file h k) = Some err
      \<longrightarrow> fst (launch_task h t ids k w) = Inl err
          \<and> param_file h k \<in> files (snd (launch_task h t ids k w))
          \<and> logs (snd (launch_task h t ids k w))
              = logs (snd (launch_task (h\<lparr>os_remove := (\<lambda>path. None)\<rparr>) t ids k w)))"
  by (simp add: launch_task_cases param_file_def)


lemma raising_host_sel:
  "pid (raising_host v) = 42" "sp_run (raising_host v) = (\<lambda>cmd. Inl (Raised ''OSError''))"
  "os_remove (raising_host v) = (\<lambda>path. None)"
  by (simp_all add: raising_host_def ex_host_def)

lemma undeletable_host_sel:
  "pid (undeletable_host v) = 42" "sp_run (undeletable_host v) = (\<lambda>cmd. Inr 7)"
  "os_remove (undeletable_host v) = (\<lambda>path. Some (Raised ''PermissionError''))"
  by (simp_all add: undeletable_host_def ex_host_def)

lemma param_file_42:
  "pid h = 42 \<Longrightarrow> param_file h 0 = ''tmp/42_0_params.py''"
  "pid h = 42 \<Longrightarrow> param_file h 1 = ''tmp/42_1_params.py''"
  by (simp_all add: param_file_def str_nat.simps digit_char_def)

text \<open>C7, as the claim states it, fails: when the child-process invocation raises the
  config file is still there afterwards, and when the deletion fails the job has no
  outcome but the exception, and the log holds only the lines of the run itself.\<close>

theorem config_file_left_behind:
  "fst (launch_task (raising_host ''0'') (ex_task ''a'' 1) [0] 0 ex_world) = Inl (Raised ''OSError'')
   \<and> ''tmp/42_0_params.py'' \<in> files (snd (launch_task (raising_host ''0'') (ex_task ''a'' 1) [0] 0 ex_world))
   \<and> fst (launch_task (undeletable_host ''0'') (ex_task ''a'' 1) [0] 0 ex_world)
       = Inl (Raised ''PermissionError'')
   \<and> logs (snd (launch_task (undeletable_host ''0'') (ex_task ''a'' 1) [0] 0 ex_world))
       = [Debug ''Running command: CUDA_VISIBLE_DEVICES=0 run.sh tmp/42_0_params.py'',
          Warning (''task a fail, see'' @ [CHR 0x0A] @ ''logs/a.out'')]"
  by (simp add: launch_task_cases raising_host_sel undeletable_host_sel param_file_42
      ex_task_sel ex_command_tmpl warning_line_def ex_world_def str_nat.simps digit_char_def)

theorem config_file_cleanup_witness:
  "sp_run (ex_host ''0'') (get_command (ex_task ''a'' 1) (param_file (ex_host ''0'') 0) (tmpl [0])) = Inr 7
   \<and> os_remove (ex_host ''0'') (param_file (ex_host ''0'') 0) = None
   \<and> fst (launch_task (ex_host ''0'') (ex_task ''a'' 1) [0] 0 ex_world) = Inr (''a'', 7)
   \<and> param_file (ex_host ''0'') 0 \<notin> files (snd (launch_task (ex_host ''0'') (ex_task ''a'' 1) [0] 0 ex_world))
   \<and> sp_run (raising_host ''0'') (get_command (ex_task ''a'' 1) (param_file (raising_host ''0'') 0) (tmpl [0]))
       = Inl (Raised ''OSError'')
   \<and> fst (launch_task (raising_host ''0'') (ex_task ''a'' 1) [0] 0 ex_world) = Inl (Raised ''OSError'')
   \<and> param_file (raising_host ''0'') 0
       \<in> files (snd (launch_task (raising_host ''0'') (ex_task ''a'' 1) [0] 0 ex_world))
   \<and> os_remove (undeletable_host ''0'') (param_file (undeletable_host ''0'') 0)
       = Some (Raised ''PermissionError'')
   \<and> fst (launch_task (undeletable_host ''0'') (ex_task ''a'' 1) [0] 0 ex_world)
       = Inl (Raised ''PermissionError'')"
proof -
  have a: "sp_run (ex_host ''0'') (get_command (ex_task ''a'' 1) (param_file (ex_host ''0'') 0) (tmpl [0])) = Inr 7
      \<and> os_remove (ex_host ''0'') (param_file (ex_host ''0'') 0) = None"
    by (simp add: ex_host_sel)
  have b: "sp_run (raising_host ''0'') (get_command (ex_task ''a'' 1) (param_file (raising_host ''0'') 0) (tmpl [0]))
       = Inl (Raised ''OSError'')"
    by (simp add: raising_host_sel)
  have c: "sp_run (undeletable_host ''0'') (get_command (ex_task ''a'' 1) (param_file (undeletable_host ''0'') 0) (tmpl [0])) = Inr 7
      \<and> os_remove (undeletable_host ''0'') (param_file (undeletable_host ''0'') 0)
       = Some (Raised ''PermissionError'')"
    by (simp add: undeletable_host_sel)
  from a b c
    config_file_cleanup [of "ex_host ''0''" "ex_task ''a'' 1" 0 "[0]" 7 ex_world "Raised ''OSError''"]
    config_file_cleanup [of "raising_host ''0''" "ex_task ''a'' 1" 0 "[0]" 7 ex_world "Raised ''OSError''"]
    config_file_cleanup [of "undeletable_host ''0''" "ex_task ''a'' 1" 0 "[0]" 7 ex_world
      "Raised ''PermissionError''"]
  show ?thesis by (simp add: ex_task_sel)
qed

subsection \<open>The outcomes of a batch\<close>



















subsection \<open>A batch runs to its end\<close>












end
